theory Spec2Isabelle
  imports Main
begin

section \<open>Data model\<close>

text \<open>
  The task record of \<^verbatim>\<open>types.tsx\<close> as the components use it:
  \<^verbatim>\<open>{ text: string, complete: boolean }\<close>. The field \<^verbatim>\<open>text\<close> is called
  \<open>text_field\<close> here, \<open>text\<close> being a reserved word of the theory language.
\<close>

record Todo =
  text_field :: string
  complete :: bool

text \<open>
  \<^verbatim>\<open>toggleTodo\<close> compares records with \<^verbatim>\<open>===\<close>, which on objects is identity of
  reference, so the objects live in an explicit heap: a reference is the position of its
  object in the list of all objects allocated so far. An object literal allocates at the
  end of that list; no object is ever overwritten by the code modelled here.
\<close>

type_synonym ref = nat

definition alloc :: "Todo list \<Rightarrow> Todo \<Rightarrow> ref \<times> Todo list" where
  "alloc h obj = (length h, h @ [obj])"

text \<open>
  Reading a property through a reference. A reference that addresses no object plays the
  role of \<^verbatim>\<open>undefined\<close>, on which a property read raises \<^verbatim>\<open>TypeError\<close>.
\<close>

datatype error = TypeError

definition deref :: "Todo list \<Rightarrow> ref \<Rightarrow> error + Todo" where
  "deref h r = (if r < length h then Inr (h ! r) else Inl TypeError)"

text \<open>
  The state of the React \<^verbatim>\<open>App\<close> component: the heap and the array held by
  \<^verbatim>\<open>useState\<close>, an array of references in display order.
\<close>

record App =
  heap :: "Todo list"
  todos :: "ref list"

text \<open>Every element of the array is a live object, as in any JavaScript state.\<close>

definition live :: "App \<Rightarrow> bool" where
  "live s = list_all (\<lambda>r. r < length (heap s)) (todos s)"

text \<open>The records of the collection, read through the heap, in display order.\<close>

definition collection :: "App \<Rightarrow> Todo list" where
  "collection s = map (\<lambda>r. heap s ! r) (todos s)"

section \<open>The React component \<^verbatim>\<open>App\<close>\<close>

text \<open>
  \<^verbatim>\<open>
  const toggleTodo: ToggleTodo = (selectedTodo: Todo) => {
    const newTodos = todos.map((todo) => {
      if (todo === selectedTodo) {
        return { ...todo, complete: !todo.complete };
      }
      return todo;
    });
    setTodos(newTodos);
  };
  \<close>
  The callback of \<^verbatim>\<open>map\<close> allocates a copy with \<^verbatim>\<open>complete\<close> negated for an
  element identical to \<^verbatim>\<open>selectedTodo\<close> and returns every other element itself.
\<close>

definition toggle_callback :: "ref \<Rightarrow> Todo list \<Rightarrow> ref \<Rightarrow> error + (ref \<times> Todo list)" where
  "toggle_callback selectedTodo h todo =
     (if todo = selectedTodo then
        (case deref h todo of
           Inl e \<Rightarrow> Inl e
         | Inr obj \<Rightarrow> Inr (alloc h (obj\<lparr>complete := \<not> complete obj\<rparr>)))
      else Inr (todo, h))"

text \<open>\<^verbatim>\<open>Array.prototype.map\<close>, left to right, threading the heap through the calls.\<close>

fun map_heap ::
  "(Todo list \<Rightarrow> ref \<Rightarrow> error + (ref \<times> Todo list)) \<Rightarrow> ref list \<Rightarrow> Todo list
     \<Rightarrow> error + (ref list \<times> Todo list)" where
  "map_heap f [] h = Inr ([], h)"
| "map_heap f (x # xs) h =
     (case f h x of
        Inl e \<Rightarrow> Inl e
      | Inr (y, h') \<Rightarrow>
          (case map_heap f xs h' of
             Inl e \<Rightarrow> Inl e
           | Inr (ys, h'') \<Rightarrow> Inr (y # ys, h'')))"

text \<open>
  Each handler call is modelled on the state of the latest render: \<^verbatim>\<open>todos\<close> in the
  closure is the array that \<^verbatim>\<open>setTodos\<close> stored last.
\<close>

definition toggleTodo :: "ref \<Rightarrow> App \<Rightarrow> error + App" where
  "toggleTodo selectedTodo s =
     (case map_heap (toggle_callback selectedTodo) (todos s) (heap s) of
        Inl e \<Rightarrow> Inl e
      | Inr (newTodos, h') \<Rightarrow> Inr \<lparr>heap = h', todos = newTodos\<rparr>)"

text \<open>
  \<^verbatim>\<open>
  const addTodo: AddTodo = (text) => {
    const newTodo = { text, complete: false };
    setTodos([...todos, newTodo]);
  };
  \<close>
  No property is read and nothing is tested, so the model has no error branch.
\<close>

definition addTodo :: "string \<Rightarrow> App \<Rightarrow> App" where
  "addTodo text s =
     (case alloc (heap s) \<lparr>text_field = text, complete = False\<rparr> of
        (newTodo, h') \<Rightarrow> \<lparr>heap = h', todos = todos s @ [newTodo]\<rparr>)"

section \<open>The React component \<^verbatim>\<open>AddTodoForm\<close>\<close>

text \<open>
  The form keeps the text of its input in a \<^verbatim>\<open>useState\<close> cell of its own; it is
  modelled together with the \<^verbatim>\<open>App\<close> whose \<^verbatim>\<open>addTodo\<close> it is given.
  \<^verbatim>\<open>
  onChange={(e) => { setText(e.target.value); }}
  onClick={(e) => { e.preventDefault(); addTodo(text); setText(''); }}
  \<close>
\<close>

record ReactApp =
  app :: App
  form_text :: string

definition onChange :: "string \<Rightarrow> ReactApp \<Rightarrow> ReactApp" where
  "onChange v p = p\<lparr>form_text := v\<rparr>"

definition onClick :: "ReactApp \<Rightarrow> ReactApp" where
  "onClick p = \<lparr>app = addTodo (form_text p) (app p), form_text = ''''\<rparr>"

section \<open>The observable state container\<close>

text \<open>
  Modelled from the spec: the body of \<^verbatim>\<open>writable\<close>, which \<^verbatim>\<open>todoListStore.ts\<close>
  imports from \<^verbatim>\<open>svelte/store\<close>, is not among the sources. The container follows
  section 4.1 of the specification: it holds the current collection, registers observers,
  and replacing the value stores it and calls every registered observer, in registration
  order, with the new value. The calls made so far are recorded in \<open>notified\<close>.
\<close>

type_synonym observer = nat

record container =
  current :: "ref list"
  observers :: "observer list"
  notified :: "(observer \<times> ref list) list"

definition writable :: "ref list \<Rightarrow> container" where
  "writable initialTodos = \<lparr>current = initialTodos, observers = [], notified = []\<rparr>"

definition subscribe :: "observer \<Rightarrow> container \<Rightarrow> container" where
  "subscribe ob c = c\<lparr>observers := observers c @ [ob]\<rparr>"

definition store_set :: "ref list \<Rightarrow> container \<Rightarrow> container" where
  "store_set v c = c\<lparr>current := v, notified := notified c @ map (\<lambda>ob. (ob, v)) (observers c)\<rparr>"

text \<open>The Svelte application: the heap and the store exported by \<^verbatim>\<open>todoListStore.ts\<close>.\<close>

record Svelte =
  sv_heap :: "Todo list"
  todoListStore :: container

definition as_app :: "Svelte \<Rightarrow> App" where
  "as_app st = \<lparr>heap = sv_heap st, todos = current (todoListStore st)\<rparr>"

definition commit :: "App \<Rightarrow> Svelte \<Rightarrow> Svelte" where
  "commit a st = \<lparr>sv_heap = heap a, todoListStore = store_set (todos a) (todoListStore st)\<rparr>"

text \<open>
  Modelled from the spec: the add and toggle operations of the container (section 4.1)
  compute the new collection as \<^verbatim>\<open>addTodo\<close> and \<^verbatim>\<open>toggleTodo\<close> do, store it and notify.
\<close>

datatype operation = Add string | Toggle ref

fun step :: "operation \<Rightarrow> Svelte \<Rightarrow> error + Svelte" where
  "step (Add text) st = Inr (commit (addTodo text (as_app st)) st)"
| "step (Toggle selectedTodo) st =
     (case toggleTodo selectedTodo (as_app st) of
        Inl e \<Rightarrow> Inl e
      | Inr a \<Rightarrow> Inr (commit a st))"

fun run :: "operation list \<Rightarrow> Svelte \<Rightarrow> error + Svelte" where
  "run [] st = Inr st"
| "run (x # xs) st = (case step x st of Inl e \<Rightarrow> Inl e | Inr st' \<Rightarrow> run xs st')"

text \<open>The value the container holds after each operation of a sequence, in order.\<close>

fun currents :: "operation list \<Rightarrow> Svelte \<Rightarrow> ref list list" where
  "currents [] st = []"
| "currents (x # xs) st =
     (case step x st of
        Inl e \<Rightarrow> []
      | Inr st' \<Rightarrow> current (todoListStore st') # currents xs st')"

section \<open>The Svelte component \<^verbatim>\<open>AddTodoForm.svelte\<close>\<close>

text \<open>
  \<^verbatim>\<open>
  let text = "";
  on:click|preventDefault={() => {
    $todoListStore = [...$todoListStore, { text, complete: false }];
    text = '';
  }}
  \<close>
  Reading \<^verbatim>\<open>$todoListStore\<close> is the current value of the store and assigning to it is
  \<^verbatim>\<open>set\<close>.
\<close>

record SvelteForm =
  svelte :: Svelte
  sv_text :: string

definition svelte_onClick :: "SvelteForm \<Rightarrow> SvelteForm" where
  "svelte_onClick f =
     (case alloc (sv_heap (svelte f)) \<lparr>text_field = sv_text f, complete = False\<rparr> of
        (newTodo, h') \<Rightarrow>
          \<lparr>svelte = \<lparr>sv_heap = h',
                      todoListStore =
                        store_set (current (todoListStore (svelte f)) @ [newTodo])
                          (todoListStore (svelte f))\<rparr>,
           sv_text = ''''\<rparr>)"

text \<open>A sequence of calls of \<^verbatim>\<open>addTodo\<close>, each on the state the previous one left.\<close>

definition addTodos :: "string list \<Rightarrow> App \<Rightarrow> App" where
  "addTodos texts s = foldl (\<lambda>s' text. addTodo text s') s texts"

section \<open>Toggling: what \<^verbatim>\<open>map\<close> with the callback computes\<close>

lemma toggle_callback_other: "todo \<noteq> sel \<Longrightarrow> toggle_callback sel h todo = Inr (todo, h)"
  by (simp add: toggle_callback_def)

lemma toggle_callback_sel:
  "sel < length h \<Longrightarrow>
   toggle_callback sel h sel = Inr (length h, h @ [(h ! sel)\<lparr>complete := \<not> complete (h ! sel)\<rparr>])"
  by (simp add: toggle_callback_def deref_def alloc_def)

lemma map_heap_toggle:
  "list_all (\<lambda>r. r < length h) xs \<Longrightarrow>
   \<exists>ys ext. map_heap (toggle_callback sel) xs h = Inr (ys, h @ ext)
     \<and> length ys = length xs
     \<and> list_all (\<lambda>r. r < length (h @ ext)) ys
     \<and> (\<forall>i<length xs.
           if xs ! i = sel
           then length h \<le> ys ! i \<and> (h @ ext) ! (ys ! i) = (h ! sel)\<lparr>complete := \<not> complete (h ! sel)\<rparr>
           else ys ! i = xs ! i)"
proof (induction xs arbitrary: h)
  case Nil
  then show ?case by simp
next
  case (Cons x xs)
  show ?case
  proof (cases "x = sel")
    case True
    let ?f = "(h ! sel)\<lparr>complete := \<not> complete (h ! sel)\<rparr>"
    from Cons.prems True have sel: "sel < length h" by simp
    from Cons.prems have "list_all (\<lambda>r. r < length (h @ [?f])) xs"
      by (simp add: list_all_iff less_Suc_eq)
    from Cons.IH [OF this] obtain ys ext where
      r: "map_heap (toggle_callback sel) xs (h @ [?f]) = Inr (ys, (h @ [?f]) @ ext)"
      and l: "length ys = length xs"
      and a: "list_all (\<lambda>r. r < length ((h @ [?f]) @ ext)) ys"
      and p: "\<forall>i<length xs.
           if xs ! i = sel
           then length (h @ [?f]) \<le> ys ! i \<and> ((h @ [?f]) @ ext) ! (ys ! i) = ((h @ [?f]) ! sel)\<lparr>complete := \<not> complete ((h @ [?f]) ! sel)\<rparr>
           else ys ! i = xs ! i"
      by blast
    have e: "(h @ [?f]) ! sel = h ! sel" using sel by (simp add: nth_append)
    have "map_heap (toggle_callback sel) (x # xs) h = Inr (length h # ys, h @ (?f # ext))"
      using True sel r by (simp add: toggle_callback_sel)
    moreover have "length (length h # ys) = length (x # xs)" using l by simp
    moreover have "list_all (\<lambda>r. r < length (h @ (?f # ext))) (length h # ys)"
      using a by simp
    moreover have "\<forall>i<length (x # xs).
           if (x # xs) ! i = sel
           then length h \<le> (length h # ys) ! i \<and> (h @ (?f # ext)) ! ((length h # ys) ! i) = ?f
           else (length h # ys) ! i = (x # xs) ! i"
    proof (intro allI impI)
      fix i assume "i < length (x # xs)"
      then show "if (x # xs) ! i = sel
           then length h \<le> (length h # ys) ! i \<and> (h @ (?f # ext)) ! ((length h # ys) ! i) = ?f
           else (length h # ys) ! i = (x # xs) ! i"
      proof (cases i)
        case 0
        then show ?thesis using True by simp
      next
        case (Suc j)
        with \<open>i < length (x # xs)\<close> have "j < length xs" by simp
        with p have "if xs ! j = sel
           then length (h @ [?f]) \<le> ys ! j \<and> ((h @ [?f]) @ ext) ! (ys ! j) = ((h @ [?f]) ! sel)\<lparr>complete := \<not> complete ((h @ [?f]) ! sel)\<rparr>
           else ys ! j = xs ! j" by blast
        then have "if xs ! j = sel
           then length (h @ [?f]) \<le> ys ! j \<and> ((h @ [?f]) @ ext) ! (ys ! j) = ?f
           else ys ! j = xs ! j" unfolding e .
        then show ?thesis using Suc by (simp split: if_splits)
      qed
    qed
    ultimately show ?thesis by blast
  next
    case False
    from Cons.prems have "list_all (\<lambda>r. r < length h) xs" by simp
    from Cons.IH [OF this] obtain ys ext where
      r: "map_heap (toggle_callback sel) xs h = Inr (ys, h @ ext)"
      and l: "length ys = length xs"
      and a: "list_all (\<lambda>r. r < length (h @ ext)) ys"
      and p: "\<forall>i<length xs.
           if xs ! i = sel
           then length h \<le> ys ! i \<and> (h @ ext) ! (ys ! i) = (h ! sel)\<lparr>complete := \<not> complete (h ! sel)\<rparr>
           else ys ! i = xs ! i"
      by blast
    have "map_heap (toggle_callback sel) (x # xs) h = Inr (x # ys, h @ ext)"
      using False r by (simp add: toggle_callback_other)
    moreover have "length (x # ys) = length (x # xs)" using l by simp
    moreover have "list_all (\<lambda>r. r < length (h @ ext)) (x # ys)"
      using a Cons.prems by simp
    moreover have "\<forall>i<length (x # xs).
           if (x # xs) ! i = sel
           then length h \<le> (x # ys) ! i \<and> (h @ ext) ! ((x # ys) ! i) = (h ! sel)\<lparr>complete := \<not> complete (h ! sel)\<rparr>
           else (x # ys) ! i = (x # xs) ! i"
    proof (intro allI impI)
      fix i assume "i < length (x # xs)"
      then show "if (x # xs) ! i = sel
           then length h \<le> (x # ys) ! i \<and> (h @ ext) ! ((x # ys) ! i) = (h ! sel)\<lparr>complete := \<not> complete (h ! sel)\<rparr>
           else (x # ys) ! i = (x # xs) ! i"
        using p False by (cases i) simp_all
    qed
    ultimately show ?thesis by blast
  qed
qed


lemma map_heap_absent: "sel \<notin> set xs \<Longrightarrow> map_heap (toggle_callback sel) xs h = Inr (xs, h)"
  by (induction xs) (auto simp: toggle_callback_def)

lemma toggleTodo_live:
  assumes "live s"
  shows "\<exists>s' ext. toggleTodo sel s = Inr s'
     \<and> heap s' = heap s @ ext
     \<and> length (todos s') = length (todos s)
     \<and> live s'
     \<and> (\<forall>i<length (todos s).
           if todos s ! i = sel
           then heap s' ! (todos s' ! i) = (heap s ! sel)\<lparr>complete := \<not> complete (heap s ! sel)\<rparr>
           else todos s' ! i = todos s ! i)"
proof -
  from assms have "list_all (\<lambda>r. r < length (heap s)) (todos s)" by (simp add: live_def)
  from map_heap_toggle [OF this, of sel] obtain ys ext where
    r: "map_heap (toggle_callback sel) (todos s) (heap s) = Inr (ys, heap s @ ext)"
    and l: "length ys = length (todos s)"
    and a: "list_all (\<lambda>r. r < length (heap s @ ext)) ys"
    and p: "\<forall>i<length (todos s).
           if todos s ! i = sel
           then length (heap s) \<le> ys ! i
             \<and> (heap s @ ext) ! (ys ! i) = (heap s ! sel)\<lparr>complete := \<not> complete (heap s ! sel)\<rparr>
           else ys ! i = todos s ! i"
    by blast
  let ?s' = "\<lparr>heap = heap s @ ext, todos = ys\<rparr>"
  have "toggleTodo sel s = Inr ?s'" using r by (simp add: toggleTodo_def)
  moreover have "heap ?s' = heap s @ ext" by simp
  moreover have "length (todos ?s') = length (todos s)" using l by simp
  moreover have "live ?s'" using a by (simp add: live_def)
  moreover have "\<forall>i<length (todos s).
           if todos s ! i = sel
           then heap ?s' ! (todos ?s' ! i) = (heap s ! sel)\<lparr>complete := \<not> complete (heap s ! sel)\<rparr>
           else todos ?s' ! i = todos s ! i"
    using p by simp
  ultimately show ?thesis by blast
qed

lemma collection_nth: "i < length (todos s) \<Longrightarrow> collection s ! i = heap s ! (todos s ! i)"
  by (simp add: collection_def)

lemma live_nth: "live s \<Longrightarrow> i < length (todos s) \<Longrightarrow> todos s ! i < length (heap s)"
  by (simp add: live_def list_all_length)

lemma collection_toggleTodo:
  assumes "live s"
  shows "\<exists>s'. toggleTodo sel s = Inr s'
     \<and> live s'
     \<and> length (todos s') = length (todos s)
     \<and> (\<forall>i<length (todos s).
           if todos s ! i = sel
           then collection s' ! i = (collection s ! i)\<lparr>complete := \<not> complete (collection s ! i)\<rparr>
           else todos s' ! i = todos s ! i \<and> collection s' ! i = collection s ! i)"
proof -
  from toggleTodo_live [OF assms, of sel] obtain s' ext where
    r: "toggleTodo sel s = Inr s'"
    and h: "heap s' = heap s @ ext"
    and l: "length (todos s') = length (todos s)"
    and a: "live s'"
    and p: "\<forall>i<length (todos s).
           if todos s ! i = sel
           then heap s' ! (todos s' ! i) = (heap s ! sel)\<lparr>complete := \<not> complete (heap s ! sel)\<rparr>
           else todos s' ! i = todos s ! i"
    by blast
  have "\<forall>i<length (todos s).
           if todos s ! i = sel
           then collection s' ! i = (collection s ! i)\<lparr>complete := \<not> complete (collection s ! i)\<rparr>
           else todos s' ! i = todos s ! i \<and> collection s' ! i = collection s ! i"
  proof (intro allI impI)
    fix i assume i: "i < length (todos s)"
    with p have pi: "if todos s ! i = sel
           then heap s' ! (todos s' ! i) = (heap s ! sel)\<lparr>complete := \<not> complete (heap s ! sel)\<rparr>
           else todos s' ! i = todos s ! i" by blast
    from i l have i': "i < length (todos s')" by simp
    from live_nth [OF assms i] have b: "todos s ! i < length (heap s)" .
    show "if todos s ! i = sel
           then collection s' ! i = (collection s ! i)\<lparr>complete := \<not> complete (collection s ! i)\<rparr>
           else todos s' ! i = todos s ! i \<and> collection s' ! i = collection s ! i"
    proof (cases "todos s ! i = sel")
      case True
      with pi show ?thesis by (simp add: collection_nth i i')
    next
      case False
      with pi have "todos s' ! i = todos s ! i" by simp
      with False b show ?thesis by (simp add: collection_nth i i' h nth_append)
    qed
  qed
  with r a l show ?thesis by blast
qed

section \<open>Adding a record\<close>

lemma nth_live_append:
  "list_all (\<lambda>r. r < length h) rs \<Longrightarrow> map (\<lambda>r. (h @ ext) ! r) rs = map (\<lambda>r. h ! r) rs"
  by (induction rs) (simp_all add: nth_append)

lemma collection_addTodo:
  "live s \<Longrightarrow> collection (addTodo text s) = collection s @ [\<lparr>text_field = text, complete = False\<rparr>]"
  by (simp add: live_def collection_def addTodo_def alloc_def nth_live_append)

lemma live_addTodo: "live s \<Longrightarrow> live (addTodo text s)"
  by (simp add: live_def addTodo_def alloc_def list_all_iff less_Suc_eq)

text \<open>
  C3: adding a text to a collection gives the old collection with the one record
  \<open>{text, complete: false}\<close> appended at the end, and the array stored by \<^verbatim>\<open>setTodos\<close>
  is the old array followed by the reference of the new object.
\<close>

theorem addTodo_appends:
  "live s \<Longrightarrow>
     collection (addTodo text s) = collection s @ [\<lparr>text_field = text, complete = False\<rparr>]
     \<and> todos (addTodo text s) = todos s @ [length (heap s)]"
  by (simp add: collection_addTodo) (simp add: addTodo_def alloc_def)

theorem addTodo_appends_witness:
  "live \<lparr>heap = [\<lparr>text_field = ''a'', complete = True\<rparr>], todos = [0]\<rparr>
   \<and> collection (addTodo ''b'' \<lparr>heap = [\<lparr>text_field = ''a'', complete = True\<rparr>], todos = [0]\<rparr>)
       = [\<lparr>text_field = ''a'', complete = True\<rparr>, \<lparr>text_field = ''b'', complete = False\<rparr>]
   \<and> todos (addTodo ''b'' \<lparr>heap = [\<lparr>text_field = ''a'', complete = True\<rparr>], todos = [0]\<rparr>) = [0, 1]"
proof -
  have l: "live \<lparr>heap = [\<lparr>text_field = ''a'', complete = True\<rparr>], todos = [0]\<rparr>"
    by (simp add: live_def)
  have c: "collection \<lparr>heap = [\<lparr>text_field = ''a'', complete = True\<rparr>], todos = [0]\<rparr>
      = [\<lparr>text_field = ''a'', complete = True\<rparr>]"
    by (simp add: collection_def)
  show ?thesis
    using l c addTodo_appends [OF l, of "''b''"] by simp
qed

text \<open>
  C2: \<^verbatim>\<open>addTodo\<close> validates nothing. For every text, the empty string included, the
  collection grows by one record and its last record carries exactly that text; the click
  handlers of both forms pass the text of the input to it unchecked.
\<close>

theorem addTodo_takes_any_text:
  "last (collection (addTodo text s)) = \<lparr>text_field = text, complete = False\<rparr>
   \<and> length (collection (addTodo text s)) = Suc (length (collection s))
   \<and> last (collection (addTodo '''' s)) = \<lparr>text_field = '''', complete = False\<rparr>
   \<and> length (collection (addTodo '''' s)) = Suc (length (collection s))
   \<and> app (onClick p) = addTodo (form_text p) (app p)
   \<and> as_app (svelte (svelte_onClick f)) = addTodo (sv_text f) (as_app (svelte f))"
  by (simp add: collection_def addTodo_def alloc_def onClick_def svelte_onClick_def as_app_def
      store_set_def)

theorem addTodo_takes_any_text_witness:
  "collection (addTodo '''' \<lparr>heap = [], todos = []\<rparr>) = [\<lparr>text_field = '''', complete = False\<rparr>]
   \<and> collection (app (onClick \<lparr>app = \<lparr>heap = [], todos = []\<rparr>, form_text = ''''\<rparr>))
       = [\<lparr>text_field = '''', complete = False\<rparr>]"
proof -
  have n: "length (collection \<lparr>heap = [], todos = []\<rparr>) = 0"
    by (simp add: collection_def)
  from addTodo_takes_any_text [of "''''" "\<lparr>heap = [], todos = []\<rparr>"
      "\<lparr>app = \<lparr>heap = [], todos = []\<rparr>, form_text = ''''\<rparr>"]
  have "last (collection (addTodo '''' \<lparr>heap = [], todos = []\<rparr>)) = \<lparr>text_field = '''', complete = False\<rparr>"
    and "length (collection (addTodo '''' \<lparr>heap = [], todos = []\<rparr>)) = Suc 0"
    and "app (onClick \<lparr>app = \<lparr>heap = [], todos = []\<rparr>, form_text = ''''\<rparr>)
          = addTodo '''' \<lparr>heap = [], todos = []\<rparr>"
    using n by simp_all
  then show ?thesis
    by (cases "collection (addTodo '''' \<lparr>heap = [], todos = []\<rparr>)") auto
qed

lemma addTodos_collection:
  "live s \<Longrightarrow>
     live (addTodos texts s)
     \<and> collection (addTodos texts s)
         = collection s @ map (\<lambda>text. \<lparr>text_field = text, complete = False\<rparr>) texts"
proof (induction texts arbitrary: s)
  case Nil
  then show ?case by (simp add: addTodos_def)
next
  case (Cons t texts)
  from Cons.prems have "live (addTodo t s)" by (rule live_addTodo)
  from Cons.IH [OF this] Cons.prems show ?case
    by (simp add: addTodos_def collection_addTodo)
qed

text \<open>
  C5: a sequence of adds starting from the empty collection gives a collection with as
  many records as there were adds, the records carrying the texts in the order of the
  calls.
\<close>

theorem addTodos_from_empty:
  assumes "todos s = []"
  shows "length (collection (addTodos texts s)) = length texts
     \<and> collection (addTodos texts s) = map (\<lambda>text. \<lparr>text_field = text, complete = False\<rparr>) texts"
proof -
  from assms have "live s" by (simp add: live_def)
  from addTodos_collection [OF this, of texts] assms show ?thesis
    by (simp add: collection_def)
qed

theorem addTodos_from_empty_witness:
  "todos \<lparr>heap = [], todos = []\<rparr> = []
   \<and> collection (addTodos [''x'', ''y'', ''x''] \<lparr>heap = [], todos = []\<rparr>)
       = [\<lparr>text_field = ''x'', complete = False\<rparr>, \<lparr>text_field = ''y'', complete = False\<rparr>,
          \<lparr>text_field = ''x'', complete = False\<rparr>]
   \<and> length (collection (addTodos [''x'', ''y'', ''x''] \<lparr>heap = [], todos = []\<rparr>)) = 3"
proof -
  have e: "todos \<lparr>heap = [], todos = []\<rparr> = []" by simp
  from addTodos_from_empty [OF e, of "[''x'', ''y'', ''x'']"] e show ?thesis by simp
qed

text \<open>
  C10: a click on \<^verbatim>\<open>Add Todo\<close> leaves the text state of the form empty and the collection
  the old one with the record of the submitted text appended, in the React form and in
  the Svelte form alike.
\<close>

theorem onClick_resets_text:
  assumes "live (app p)" and "live (as_app (svelte f))"
  shows "form_text (onClick p) = ''''
     \<and> collection (app (onClick p))
         = collection (app p) @ [\<lparr>text_field = form_text p, complete = False\<rparr>]
     \<and> sv_text (svelte_onClick f) = ''''
     \<and> collection (as_app (svelte (svelte_onClick f)))
         = collection (as_app (svelte f)) @ [\<lparr>text_field = sv_text f, complete = False\<rparr>]"
proof -
  have a: "as_app (svelte (svelte_onClick f)) = addTodo (sv_text f) (as_app (svelte f))"
    by (simp add: svelte_onClick_def as_app_def addTodo_def alloc_def store_set_def)
  have "form_text (onClick p) = ''''" by (simp add: onClick_def)
  moreover have "collection (app (onClick p))
         = collection (app p) @ [\<lparr>text_field = form_text p, complete = False\<rparr>]"
    using collection_addTodo [OF assms(1)] by (simp add: onClick_def)
  moreover have "sv_text (svelte_onClick f) = ''''"
    by (simp add: svelte_onClick_def alloc_def)
  moreover have "collection (as_app (svelte (svelte_onClick f)))
         = collection (as_app (svelte f)) @ [\<lparr>text_field = sv_text f, complete = False\<rparr>]"
    using collection_addTodo [OF assms(2)] a by simp
  ultimately show ?thesis by simp
qed

theorem onClick_resets_text_witness:
  "live (app \<lparr>app = \<lparr>heap = [], todos = []\<rparr>, form_text = ''New Todo''\<rparr>)
   \<and> live (as_app (svelte \<lparr>svelte = \<lparr>sv_heap = [], todoListStore = writable []\<rparr>,
                             sv_text = ''New Todo''\<rparr>))
   \<and> form_text (onClick \<lparr>app = \<lparr>heap = [], todos = []\<rparr>, form_text = ''New Todo''\<rparr>) = ''''
   \<and> collection (app (onClick \<lparr>app = \<lparr>heap = [], todos = []\<rparr>, form_text = ''New Todo''\<rparr>))
       = [\<lparr>text_field = ''New Todo'', complete = False\<rparr>]
   \<and> sv_text (svelte_onClick \<lparr>svelte = \<lparr>sv_heap = [], todoListStore = writable []\<rparr>,
                               sv_text = ''New Todo''\<rparr>) = ''''
   \<and> collection (as_app (svelte (svelte_onClick
         \<lparr>svelte = \<lparr>sv_heap = [], todoListStore = writable []\<rparr>, sv_text = ''New Todo''\<rparr>)))
       = [\<lparr>text_field = ''New Todo'', complete = False\<rparr>]"
proof -
  let ?p = "\<lparr>app = \<lparr>heap = [], todos = []\<rparr>, form_text = ''New Todo''\<rparr>"
  let ?f = "\<lparr>svelte = \<lparr>sv_heap = [], todoListStore = writable []\<rparr>, sv_text = ''New Todo''\<rparr>"
  have l1: "live (app ?p)" by (simp add: live_def)
  have l2: "live (as_app (svelte ?f))" by (simp add: live_def as_app_def writable_def)
  have c1: "collection (app ?p) = []" by (simp add: collection_def)
  have c2: "collection (as_app (svelte ?f)) = []"
    by (simp add: collection_def as_app_def writable_def)
  have t1: "form_text ?p = ''New Todo''" by simp
  have t2: "sv_text ?f = ''New Todo''" by simp
  from onClick_resets_text [OF l1 l2] show ?thesis
    unfolding c1 c2 t1 t2 using l1 l2 by simp
qed

section \<open>Toggling a record\<close>

text \<open>
  C4: toggling a record of a collection leaves every other record as it was, the same
  object with the same \<^verbatim>\<open>text\<close> and \<^verbatim>\<open>complete\<close>; at a position that holds the selected
  record the new record is the old one with \<^verbatim>\<open>complete\<close> inverted and nothing else changed.
\<close>

theorem toggleTodo_isolation:
  assumes "live s" and "i < length (todos s)"
  shows "\<exists>s'. toggleTodo selectedTodo s = Inr s'
     \<and> (if todos s ! i = selectedTodo
        then collection s' ! i = (collection s ! i)\<lparr>complete := \<not> complete (collection s ! i)\<rparr>
        else todos s' ! i = todos s ! i
           \<and> text_field (collection s' ! i) = text_field (collection s ! i)
           \<and> complete (collection s' ! i) = complete (collection s ! i))"
proof -
  from collection_toggleTodo [OF assms(1), of selectedTodo] obtain s' where
    r: "toggleTodo selectedTodo s = Inr s'"
    and p: "\<forall>i<length (todos s).
           if todos s ! i = selectedTodo
           then collection s' ! i = (collection s ! i)\<lparr>complete := \<not> complete (collection s ! i)\<rparr>
           else todos s' ! i = todos s ! i \<and> collection s' ! i = collection s ! i"
    by blast
  from p assms(2) have "if todos s ! i = selectedTodo
        then collection s' ! i = (collection s ! i)\<lparr>complete := \<not> complete (collection s ! i)\<rparr>
        else todos s' ! i = todos s ! i
           \<and> text_field (collection s' ! i) = text_field (collection s ! i)
           \<and> complete (collection s' ! i) = complete (collection s ! i)"
    by (auto split: if_splits)
  with r show ?thesis by blast
qed

theorem toggleTodo_isolation_witness:
  "live \<lparr>heap = [\<lparr>text_field = ''a'', complete = False\<rparr>, \<lparr>text_field = ''b'', complete = True\<rparr>],
         todos = [0, 1]\<rparr>
   \<and> (1::nat) < length (todos \<lparr>heap = [\<lparr>text_field = ''a'', complete = False\<rparr>,
                                         \<lparr>text_field = ''b'', complete = True\<rparr>],
                                 todos = [0, 1]\<rparr>)
   \<and> toggleTodo 0 \<lparr>heap = [\<lparr>text_field = ''a'', complete = False\<rparr>, \<lparr>text_field = ''b'', complete = True\<rparr>],
                    todos = [0, 1]\<rparr>
     = Inr \<lparr>heap = [\<lparr>text_field = ''a'', complete = False\<rparr>, \<lparr>text_field = ''b'', complete = True\<rparr>,
                    \<lparr>text_field = ''a'', complete = True\<rparr>],
            todos = [2, 1]\<rparr>
   \<and> collection \<lparr>heap = [\<lparr>text_field = ''a'', complete = False\<rparr>, \<lparr>text_field = ''b'', complete = True\<rparr>,
                         \<lparr>text_field = ''a'', complete = True\<rparr>],
                 todos = [2, 1]\<rparr> ! 1
     = \<lparr>text_field = ''b'', complete = True\<rparr>"
proof -
  let ?s = "\<lparr>heap = [\<lparr>text_field = ''a'', complete = False\<rparr>, \<lparr>text_field = ''b'', complete = True\<rparr>],
         todos = [0, 1]\<rparr>"
  let ?s' = "\<lparr>heap = [\<lparr>text_field = ''a'', complete = False\<rparr>, \<lparr>text_field = ''b'', complete = True\<rparr>,
                    \<lparr>text_field = ''a'', complete = True\<rparr>],
            todos = [2, 1]\<rparr>"
  have l: "live ?s" by (simp add: live_def)
  have i: "(1::nat) < length (todos ?s)" by simp
  have t: "toggleTodo 0 ?s = Inr ?s'"
    by (simp add: toggleTodo_def toggle_callback_def deref_def alloc_def)
  have c: "collection ?s ! 1 = \<lparr>text_field = ''b'', complete = True\<rparr>"
    by (simp add: collection_def)
  from toggleTodo_isolation [OF l i, of 0] t c
  have "text_field (collection ?s' ! 1) = ''b'' \<and> complete (collection ?s' ! 1) = True"
    by simp
  then have "collection ?s' ! 1 = \<lparr>text_field = ''b'', complete = True\<rparr>"
    by (cases "collection ?s' ! 1") simp
  with l i t show ?thesis by simp
qed

text \<open>
  C9: toggling returns a collection of the same length whose record at each index is the
  record at that index of the input: the same object, or for the selected record its copy
  with \<^verbatim>\<open>complete\<close> inverted. The texts stay in the same order.
\<close>

theorem toggleTodo_keeps_positions:
  assumes "live s"
  shows "\<exists>s'. toggleTodo selectedTodo s = Inr s'
     \<and> length (collection s') = length (collection s)
     \<and> map text_field (collection s') = map text_field (collection s)
     \<and> (\<forall>i<length (todos s).
           if todos s ! i = selectedTodo
           then collection s' ! i = (collection s ! i)\<lparr>complete := \<not> complete (collection s ! i)\<rparr>
           else todos s' ! i = todos s ! i)"
proof -
  from collection_toggleTodo [OF assms, of selectedTodo] obtain s' where
    r: "toggleTodo selectedTodo s = Inr s'"
    and l: "length (todos s') = length (todos s)"
    and p: "\<forall>i<length (todos s).
           if todos s ! i = selectedTodo
           then collection s' ! i = (collection s ! i)\<lparr>complete := \<not> complete (collection s ! i)\<rparr>
           else todos s' ! i = todos s ! i \<and> collection s' ! i = collection s ! i"
    by blast
  have n: "length (collection s') = length (collection s)"
    using l by (simp add: collection_def)
  have "\<forall>i<length (todos s). text_field (collection s' ! i) = text_field (collection s ! i)"
    using p by (auto split: if_splits)
  then have m: "map text_field (collection s') = map text_field (collection s)"
    using n by (auto simp: list_eq_iff_nth_eq collection_def)
  have "\<forall>i<length (todos s).
           if todos s ! i = selectedTodo
           then collection s' ! i = (collection s ! i)\<lparr>complete := \<not> complete (collection s ! i)\<rparr>
           else todos s' ! i = todos s ! i"
    using p by (auto split: if_splits)
  with r n m show ?thesis by blast
qed

theorem toggleTodo_keeps_positions_witness:
  "live \<lparr>heap = [\<lparr>text_field = ''a'', complete = False\<rparr>, \<lparr>text_field = ''b'', complete = False\<rparr>],
         todos = [1, 0]\<rparr>
   \<and> toggleTodo 1 \<lparr>heap = [\<lparr>text_field = ''a'', complete = False\<rparr>, \<lparr>text_field = ''b'', complete = False\<rparr>],
                    todos = [1, 0]\<rparr>
       = Inr \<lparr>heap = [\<lparr>text_field = ''a'', complete = False\<rparr>, \<lparr>text_field = ''b'', complete = False\<rparr>,
                      \<lparr>text_field = ''b'', complete = True\<rparr>],
              todos = [2, 0]\<rparr>
   \<and> map text_field (collection \<lparr>heap = [\<lparr>text_field = ''a'', complete = False\<rparr>,
                                          \<lparr>text_field = ''b'', complete = False\<rparr>,
                                          \<lparr>text_field = ''b'', complete = True\<rparr>],
                                  todos = [2, 0]\<rparr>)
       = [''b'', ''a'']"
proof -
  let ?s = "\<lparr>heap = [\<lparr>text_field = ''a'', complete = False\<rparr>, \<lparr>text_field = ''b'', complete = False\<rparr>],
         todos = [1, 0]\<rparr>"
  have l: "live ?s" by (simp add: live_def)
  have t: "toggleTodo 1 ?s
       = Inr \<lparr>heap = [\<lparr>text_field = ''a'', complete = False\<rparr>, \<lparr>text_field = ''b'', complete = False\<rparr>,
                      \<lparr>text_field = ''b'', complete = True\<rparr>],
              todos = [2, 0]\<rparr>"
    by (simp add: toggleTodo_def toggle_callback_def deref_def alloc_def)
  have c: "map text_field (collection ?s) = [''b'', ''a'']" by (simp add: collection_def)
  from toggleTodo_keeps_positions [OF l, of 1] l t c show ?thesis by simp
qed

text \<open>
  C8: toggling with a record that is identical (by \<^verbatim>\<open>===\<close>) to no element of the
  collection returns the state as it was, without an error. The witness toggles with an
  object that is structurally equal to the only element but is another object.
\<close>

theorem toggleTodo_absent_is_noop:
  assumes "selectedTodo \<notin> set (todos s)"
  shows "toggleTodo selectedTodo s = Inr s"
  using map_heap_absent [OF assms, of "heap s"] by (simp add: toggleTodo_def)

theorem toggleTodo_absent_is_noop_witness:
  "1 \<notin> set (todos \<lparr>heap = [\<lparr>text_field = ''a'', complete = False\<rparr>, \<lparr>text_field = ''a'', complete = False\<rparr>],
                    todos = [0]\<rparr>)
   \<and> toggleTodo 1 \<lparr>heap = [\<lparr>text_field = ''a'', complete = False\<rparr>, \<lparr>text_field = ''a'', complete = False\<rparr>],
                    todos = [0]\<rparr>
       = Inr \<lparr>heap = [\<lparr>text_field = ''a'', complete = False\<rparr>, \<lparr>text_field = ''a'', complete = False\<rparr>],
              todos = [0]\<rparr>"
proof -
  have a: "1 \<notin> set (todos \<lparr>heap = [\<lparr>text_field = ''a'', complete = False\<rparr>,
                                  \<lparr>text_field = ''a'', complete = False\<rparr>],
                          todos = [0]\<rparr>)"
    by simp
  from toggleTodo_absent_is_noop [OF a] a show ?thesis by simp
qed

text \<open>
  C1, as amended: toggling a record of the collection and then toggling the record that
  took its place (the reference at the same index of the new collection, which is what
  the re-rendered list passes to the handler) gives back the original record at that
  index, so its \<^verbatim>\<open>complete\<close> field has its original value.
\<close>

theorem toggle_twice_restores:
  assumes s: "live s" and i: "i < length (todos s)" and e: "todos s ! i = selectedTodo"
  shows "\<exists>s1 s2. toggleTodo selectedTodo s = Inr s1 \<and> toggleTodo (todos s1 ! i) s1 = Inr s2
       \<and> collection s2 ! i = collection s ! i"
proof -
  from collection_toggleTodo [OF s, of selectedTodo] obtain s1 where
    r1: "toggleTodo selectedTodo s = Inr s1" and a1: "live s1"
    and l1: "length (todos s1) = length (todos s)"
    and p1: "\<forall>i<length (todos s).
           if todos s ! i = selectedTodo
           then collection s1 ! i = (collection s ! i)\<lparr>complete := \<not> complete (collection s ! i)\<rparr>
           else todos s1 ! i = todos s ! i \<and> collection s1 ! i = collection s ! i"
    by blast
  from collection_toggleTodo [OF a1, of "todos s1 ! i"] obtain s2 where
    r2: "toggleTodo (todos s1 ! i) s1 = Inr s2"
    and p2: "\<forall>j<length (todos s1).
           if todos s1 ! j = todos s1 ! i
           then collection s2 ! j = (collection s1 ! j)\<lparr>complete := \<not> complete (collection s1 ! j)\<rparr>
           else todos s2 ! j = todos s1 ! j \<and> collection s2 ! j = collection s1 ! j"
    by blast
  from p1 i e have c1: "collection s1 ! i = (collection s ! i)\<lparr>complete := \<not> complete (collection s ! i)\<rparr>"
    by auto
  from p2 i l1 have "collection s2 ! i = (collection s1 ! i)\<lparr>complete := \<not> complete (collection s1 ! i)\<rparr>"
    by auto
  with c1 have "collection s2 ! i = collection s ! i" by simp
  with r1 r2 show ?thesis by blast
qed

theorem toggle_twice_restores_witness:
  "live \<lparr>heap = [\<lparr>text_field = ''a'', complete = False\<rparr>], todos = [0]\<rparr>
   \<and> (0::nat) < length (todos \<lparr>heap = [\<lparr>text_field = ''a'', complete = False\<rparr>], todos = [0]\<rparr>)
   \<and> todos \<lparr>heap = [\<lparr>text_field = ''a'', complete = False\<rparr>], todos = [0]\<rparr> ! 0 = 0
   \<and> toggleTodo 0 \<lparr>heap = [\<lparr>text_field = ''a'', complete = False\<rparr>], todos = [0]\<rparr>
     = Inr \<lparr>heap = [\<lparr>text_field = ''a'', complete = False\<rparr>, \<lparr>text_field = ''a'', complete = True\<rparr>],
            todos = [1]\<rparr>
   \<and> toggleTodo 1 \<lparr>heap = [\<lparr>text_field = ''a'', complete = False\<rparr>, \<lparr>text_field = ''a'', complete = True\<rparr>],
                    todos = [1]\<rparr>
     = Inr \<lparr>heap = [\<lparr>text_field = ''a'', complete = False\<rparr>, \<lparr>text_field = ''a'', complete = True\<rparr>,
                    \<lparr>text_field = ''a'', complete = False\<rparr>],
            todos = [2]\<rparr>
   \<and> collection \<lparr>heap = [\<lparr>text_field = ''a'', complete = False\<rparr>, \<lparr>text_field = ''a'', complete = True\<rparr>,
                         \<lparr>text_field = ''a'', complete = False\<rparr>],
                 todos = [2]\<rparr> ! 0
     = collection \<lparr>heap = [\<lparr>text_field = ''a'', complete = False\<rparr>], todos = [0]\<rparr> ! 0"
proof -
  let ?s = "\<lparr>heap = [\<lparr>text_field = ''a'', complete = False\<rparr>], todos = [0]\<rparr>"
  have l: "live ?s" by (simp add: live_def)
  have i: "(0::nat) < length (todos ?s)" by simp
  have e: "todos ?s ! 0 = 0" by simp
  have t1: "toggleTodo 0 ?s
     = Inr \<lparr>heap = [\<lparr>text_field = ''a'', complete = False\<rparr>, \<lparr>text_field = ''a'', complete = True\<rparr>],
            todos = [1]\<rparr>"
    by (simp add: toggleTodo_def toggle_callback_def deref_def alloc_def)
  have t2: "toggleTodo 1 \<lparr>heap = [\<lparr>text_field = ''a'', complete = False\<rparr>, \<lparr>text_field = ''a'', complete = True\<rparr>],
                    todos = [1]\<rparr>
     = Inr \<lparr>heap = [\<lparr>text_field = ''a'', complete = False\<rparr>, \<lparr>text_field = ''a'', complete = True\<rparr>,
                    \<lparr>text_field = ''a'', complete = False\<rparr>],
            todos = [2]\<rparr>"
    by (simp add: toggleTodo_def toggle_callback_def deref_def alloc_def)
  from toggle_twice_restores [OF l i e] obtain s1 s2 where
    "toggleTodo 0 ?s = Inr s1" "toggleTodo (todos s1 ! 0) s1 = Inr s2"
    "collection s2 ! 0 = collection ?s ! 0"
    by blast
  with t1 t2 l i e show ?thesis by auto
qed

text \<open>
  Toggling twice with the same reference does not restore \<^verbatim>\<open>complete\<close>: the first call
  replaces the object by a fresh copy, so the second call finds no element identical to
  the old reference and changes nothing.
\<close>

theorem toggle_twice_same_reference_counterexample:
  "toggleTodo 0 \<lparr>heap = [\<lparr>text_field = ''a'', complete = False\<rparr>], todos = [0]\<rparr>
     = Inr \<lparr>heap = [\<lparr>text_field = ''a'', complete = False\<rparr>, \<lparr>text_field = ''a'', complete = True\<rparr>],
            todos = [1]\<rparr>
   \<and> toggleTodo 0 \<lparr>heap = [\<lparr>text_field = ''a'', complete = False\<rparr>, \<lparr>text_field = ''a'', complete = True\<rparr>],
                    todos = [1]\<rparr>
     = Inr \<lparr>heap = [\<lparr>text_field = ''a'', complete = False\<rparr>, \<lparr>text_field = ''a'', complete = True\<rparr>],
            todos = [1]\<rparr>
   \<and> complete (collection \<lparr>heap = [\<lparr>text_field = ''a'', complete = False\<rparr>, \<lparr>text_field = ''a'', complete = True\<rparr>],
                             todos = [1]\<rparr> ! 0)
     \<noteq> complete (collection \<lparr>heap = [\<lparr>text_field = ''a'', complete = False\<rparr>], todos = [0]\<rparr> ! 0)"
  by (simp add: toggleTodo_def toggle_callback_def deref_def alloc_def collection_def)

text \<open>
  The error branch of the model is reached only from a state that holds a reference to no
  object, which no array of type \<^verbatim>\<open>Todo[]\<close> is.
\<close>

lemma toggleTodo_dangling: "toggleTodo 0 \<lparr>heap = [], todos = [0]\<rparr> = Inl TypeError"
  by (simp add: toggleTodo_def toggle_callback_def deref_def)

text \<open>
  C7: on every state whose array holds live objects, \<^verbatim>\<open>toggleTodo\<close> returns normally for
  every reference and \<^verbatim>\<open>addTodo\<close> for every text, and both leave such a state again, so no
  sequence of these operations reaches the error branch.
\<close>

theorem operations_never_fail:
  assumes "live s"
  shows "(\<exists>s'. toggleTodo selectedTodo s = Inr s' \<and> live s') \<and> live (addTodo text s)"
proof -
  from toggleTodo_live [OF assms, of selectedTodo]
  have "\<exists>s'. toggleTodo selectedTodo s = Inr s' \<and> live s'" by blast
  with live_addTodo [OF assms, of "text"] show ?thesis by simp
qed

theorem operations_never_fail_witness:
  "live \<lparr>heap = [\<lparr>text_field = ''a'', complete = False\<rparr>], todos = [0, 0]\<rparr>
   \<and> toggleTodo 0 \<lparr>heap = [\<lparr>text_field = ''a'', complete = False\<rparr>], todos = [0, 0]\<rparr>
       = Inr \<lparr>heap = [\<lparr>text_field = ''a'', complete = False\<rparr>, \<lparr>text_field = ''a'', complete = True\<rparr>,
                      \<lparr>text_field = ''a'', complete = True\<rparr>],
              todos = [1, 2]\<rparr>
   \<and> live \<lparr>heap = [\<lparr>text_field = ''a'', complete = False\<rparr>, \<lparr>text_field = ''a'', complete = True\<rparr>,
                   \<lparr>text_field = ''a'', complete = True\<rparr>],
           todos = [1, 2]\<rparr>
   \<and> live (addTodo [] \<lparr>heap = [\<lparr>text_field = ''a'', complete = False\<rparr>], todos = [0, 0]\<rparr>)"
proof -
  let ?s = "\<lparr>heap = [\<lparr>text_field = ''a'', complete = False\<rparr>], todos = [0, 0]\<rparr>"
  have l: "live ?s" by (simp add: live_def)
  have t: "toggleTodo 0 ?s
       = Inr \<lparr>heap = [\<lparr>text_field = ''a'', complete = False\<rparr>, \<lparr>text_field = ''a'', complete = True\<rparr>,
                      \<lparr>text_field = ''a'', complete = True\<rparr>],
              todos = [1, 2]\<rparr>"
    by (simp add: toggleTodo_def toggle_callback_def deref_def alloc_def)
  from operations_never_fail [OF l, of 0 "[]"] l t show ?thesis by simp
qed

section \<open>Observers of the container\<close>

lemma as_app_commit: "as_app (commit a st) = a"
  by (cases a) (simp add: as_app_def commit_def store_set_def)

lemma step_live:
  assumes "live (as_app st)"
  shows "\<exists>st'. step x st = Inr st' \<and> live (as_app st')
     \<and> observers (todoListStore st') = observers (todoListStore st)
     \<and> notified (todoListStore st')
         = notified (todoListStore st)
           @ map (\<lambda>ob. (ob, current (todoListStore st'))) (observers (todoListStore st))"
proof (cases x)
  case (Add t)
  from live_addTodo [OF assms, of t] show ?thesis
    by (simp add: Add as_app_commit) (simp add: commit_def store_set_def)
next
  case (Toggle r)
  from toggleTodo_live [OF assms, of r] obtain a where
    "toggleTodo r (as_app st) = Inr a" and "live a" by blast
  then show ?thesis
    by (simp add: Toggle as_app_commit) (simp add: commit_def store_set_def)
qed

lemma run_live:
  "live (as_app st) \<Longrightarrow>
   \<exists>st'. run xs st = Inr st' \<and> live (as_app st')
     \<and> observers (todoListStore st') = observers (todoListStore st)
     \<and> length (currents xs st) = length xs
     \<and> notified (todoListStore st')
         = notified (todoListStore st)
           @ concat (map (\<lambda>v. map (\<lambda>ob. (ob, v)) (observers (todoListStore st))) (currents xs st))"
proof (induction xs arbitrary: st)
  case Nil
  then show ?case by simp
next
  case (Cons x xs)
  from step_live [OF Cons.prems, of x] obtain st1 where
    s: "step x st = Inr st1" and l: "live (as_app st1)"
    and o: "observers (todoListStore st1) = observers (todoListStore st)"
    and n: "notified (todoListStore st1)
         = notified (todoListStore st)
           @ map (\<lambda>ob. (ob, current (todoListStore st1))) (observers (todoListStore st))"
    by blast
  from Cons.IH [OF l] obtain st' where
    "run xs st1 = Inr st'" "live (as_app st')"
    "observers (todoListStore st') = observers (todoListStore st1)"
    "length (currents xs st1) = length xs"
    "notified (todoListStore st')
         = notified (todoListStore st1)
           @ concat (map (\<lambda>v. map (\<lambda>ob. (ob, v)) (observers (todoListStore st1))) (currents xs st1))"
    by blast
  with s o n show ?case by simp
qed

lemma calls_of_one:
  "distinct obs \<Longrightarrow> ob \<in> set obs \<Longrightarrow>
     map snd (filter (\<lambda>c. fst c = ob) (map (\<lambda>ob'. (ob', v)) obs)) = [v]"
  by (induction obs) (auto simp: filter_map comp_def filter_empty_conv)

lemma calls_of:
  "distinct obs \<Longrightarrow> ob \<in> set obs \<Longrightarrow>
     map snd (filter (\<lambda>c. fst c = ob) (concat (map (\<lambda>v. map (\<lambda>ob'. (ob', v)) obs) vs))) = vs"
  by (induction vs) (simp_all add: calls_of_one)

lemma foldl_subscribe:
  "foldl (\<lambda>c ob. subscribe ob c) c obs = c\<lparr>observers := observers c @ obs\<rparr>"
  by (induction obs arbitrary: c) (simp_all add: subscribe_def)

text \<open>
  C6: with the distinct observers \<open>obs\<close> registered on a fresh container before any change,
  every sequence of adds and toggles runs to the end; each replacement of the value calls
  the observers once each, in registration order, with the value just stored, so every
  observer receives exactly the values the container held after each operation, one call
  per operation.
\<close>

theorem observer_fan_out:
  assumes "live \<lparr>heap = h, todos = initialTodos\<rparr>" and "distinct obs"
  shows "\<exists>st'. run ops \<lparr>sv_heap = h,
                        todoListStore = foldl (\<lambda>c ob. subscribe ob c) (writable initialTodos) obs\<rparr>
            = Inr st'
     \<and> length (currents ops \<lparr>sv_heap = h,
                 todoListStore = foldl (\<lambda>c ob. subscribe ob c) (writable initialTodos) obs\<rparr>)
         = length ops
     \<and> notified (todoListStore st')
         = concat (map (\<lambda>v. map (\<lambda>ob. (ob, v)) obs)
             (currents ops \<lparr>sv_heap = h,
                 todoListStore = foldl (\<lambda>c ob. subscribe ob c) (writable initialTodos) obs\<rparr>))
     \<and> (\<forall>ob \<in> set obs.
           map snd (filter (\<lambda>c. fst c = ob) (notified (todoListStore st')))
             = currents ops \<lparr>sv_heap = h,
                 todoListStore = foldl (\<lambda>c ob. subscribe ob c) (writable initialTodos) obs\<rparr>)"
proof -
  let ?st = "\<lparr>sv_heap = h,
              todoListStore = foldl (\<lambda>c ob. subscribe ob c) (writable initialTodos) obs\<rparr>"
  have c: "todoListStore ?st = \<lparr>current = initialTodos, observers = obs, notified = []\<rparr>"
    by (simp add: foldl_subscribe writable_def)
  have "live (as_app ?st)"
    using assms(1) by (simp add: as_app_def foldl_subscribe writable_def)
  from run_live [OF this, of ops] obtain st' where
    r: "run ops ?st = Inr st'"
    and n: "length (currents ops ?st) = length ops"
    and f: "notified (todoListStore st')
         = notified (todoListStore ?st)
           @ concat (map (\<lambda>v. map (\<lambda>ob. (ob, v)) (observers (todoListStore ?st))) (currents ops ?st))"
    by blast
  from f have f': "notified (todoListStore st')
         = concat (map (\<lambda>v. map (\<lambda>ob. (ob, v)) obs) (currents ops ?st))"
    unfolding c by simp
  have "\<forall>ob \<in> set obs.
           map snd (filter (\<lambda>c. fst c = ob) (notified (todoListStore st'))) = currents ops ?st"
    unfolding f' using calls_of [OF assms(2)] by blast
  with r n f' show ?thesis by blast
qed

theorem observer_fan_out_witness:
  "live \<lparr>heap = [], todos = []\<rparr> \<and> distinct [7, 3 :: nat]
   \<and> run [Add ''x'', Toggle 0]
         \<lparr>sv_heap = [], todoListStore = foldl (\<lambda>c ob. subscribe ob c) (writable []) [7, 3]\<rparr>
       = Inr \<lparr>sv_heap = [\<lparr>text_field = ''x'', complete = False\<rparr>, \<lparr>text_field = ''x'', complete = True\<rparr>],
              todoListStore = \<lparr>current = [1], observers = [7, 3],
                                notified = [(7, [0]), (3, [0]), (7, [1]), (3, [1])]\<rparr>\<rparr>
   \<and> currents [Add ''x'', Toggle 0]
         \<lparr>sv_heap = [], todoListStore = foldl (\<lambda>c ob. subscribe ob c) (writable []) [7, 3]\<rparr>
       = [[0], [1]]
   \<and> map snd (filter (\<lambda>c. fst c = 3) [(7 :: nat, [0 :: nat]), (3, [0]), (7, [1]), (3, [1])]) = [[0], [1]]"
proof -
  let ?st = "\<lparr>sv_heap = [], todoListStore = foldl (\<lambda>c ob. subscribe ob c) (writable []) [7, 3]\<rparr>"
  have l: "live \<lparr>heap = [], todos = []\<rparr>" by (simp add: live_def)
  have d: "distinct [7, 3 :: nat]" by simp
  have r: "run [Add ''x'', Toggle 0] ?st
       = Inr \<lparr>sv_heap = [\<lparr>text_field = ''x'', complete = False\<rparr>, \<lparr>text_field = ''x'', complete = True\<rparr>],
              todoListStore = \<lparr>current = [1], observers = [7, 3],
                                notified = [(7, [0]), (3, [0]), (7, [1]), (3, [1])]\<rparr>\<rparr>"
    by (simp add: subscribe_def writable_def commit_def store_set_def as_app_def addTodo_def
        alloc_def toggleTodo_def toggle_callback_def deref_def)
  have c: "currents [Add ''x'', Toggle 0] ?st = [[0], [1]]"
    by (simp add: subscribe_def writable_def commit_def store_set_def as_app_def addTodo_def
        alloc_def toggleTodo_def toggle_callback_def deref_def)
  from observer_fan_out [OF l d, of "[Add ''x'', Toggle 0]"] show ?thesis
    unfolding r c using l by simp
qed

end
